theory Spec2Isabelle
  imports Main
begin

section \<open>The shell's view of the operating system\<close>

text \<open>
  The interpreter of \<^verbatim>\<open>main.c\<close> is a single C file whose functions act on the
  process state: the working directory, the three standard streams and \<^verbatim>\<open>errno\<close>.
  That state is the record \<open>world\<close>, passed through every function and returned updated.
  \<^item> \<open>out\<close> and \<open>err\<close> hold what has been written to standard output and to the
    diagnostic stream so far;
  \<^item> \<open>inp\<close> holds the bytes of standard input not yet read, and \<open>inp_err\<close> what a
    read finds once they are used up: \<open>None\<close> is end of file, \<open>Some e\<close> a read error whose
    \<^verbatim>\<open>strerror\<close> text is \<open>e\<close>;
  \<^item> \<open>eof\<close> is the end-of-file indicator of \<^verbatim>\<open>stdin\<close>, the value \<^verbatim>\<open>feof\<close> reads;
  \<^item> \<open>errno\<close> holds the \<^verbatim>\<open>strerror\<close> text of the last failed library call;
  \<^item> \<open>waits\<close> counts the calls of \<^verbatim>\<open>waitpid\<close> made so far (the blocking calls).
\<close>

record world =
  cwd :: string
  out :: string
  err :: string
  inp :: string
  inp_err :: "string option"
  eof :: bool
  errno :: string
  waits :: nat

text \<open>
  What \<^verbatim>\<open>waitpid\<close> with \<^verbatim>\<open>WUNTRACED\<close> stores in \<^verbatim>\<open>status\<close>: the child exited
  with a code, was killed by a signal, or was stopped by a signal. The three POSIX macros
  the source uses are predicates on it.
\<close>

datatype wstatus = WExited nat | WSignaled nat | WStopped nat

primrec WIFEXITED :: "wstatus \<Rightarrow> bool" where
  "WIFEXITED (WExited c) = True"
| "WIFEXITED (WSignaled s) = False"
| "WIFEXITED (WStopped s) = False"

primrec WIFSIGNALED :: "wstatus \<Rightarrow> bool" where
  "WIFSIGNALED (WExited c) = False"
| "WIFSIGNALED (WSignaled s) = True"
| "WIFSIGNALED (WStopped s) = False"

primrec WIFSTOPPED :: "wstatus \<Rightarrow> bool" where
  "WIFSTOPPED (WExited c) = False"
| "WIFSTOPPED (WSignaled s) = False"
| "WIFSTOPPED (WStopped s) = True"

text \<open>
  The system calls whose results the program cannot compute are parameters, collected in
  the record \<open>os\<close>. Each may depend on the state of the world at the call.
  \<^item> \<open>chdir_os w p\<close>: \<open>Inl e\<close> when \<^verbatim>\<open>chdir(p)\<close> fails (it returns \<open>-1\<close>, the
    working directory stays, \<^verbatim>\<open>errno\<close> reads \<open>e\<close>), \<open>Inr d\<close> when it returns \<open>0\<close> and
    the working directory becomes \<open>d\<close>;
  \<^item> \<open>fork_os w\<close>: the value \<^verbatim>\<open>fork\<close> returns in the process that is followed
    (\<open>0\<close> in the child, negative on failure, the child's id in the parent), with the
    text of \<^verbatim>\<open>errno\<close> when it fails;
  \<^item> \<open>execvp_os w args\<close>: \<open>None\<close> when the image is replaced (the call does not
    return), \<open>Some e\<close> when it returns \<open>-1\<close> with \<^verbatim>\<open>errno\<close> reading \<open>e\<close>;
  \<^item> \<open>waitpid_os w pid\<close>: the state changes of child \<open>pid\<close> that successive calls of
    \<^verbatim>\<open>waitpid(pid, &status, WUNTRACED)\<close> report, in order. When the list is used up
    the child never changes state again and the next call blocks for ever;
  \<^item> \<open>malloc_os w n\<close>: whether a request for \<open>n\<close> bytes (\<^verbatim>\<open>malloc\<close> or
    \<^verbatim>\<open>realloc\<close>) is granted.
\<close>

record os =
  chdir_os :: "world \<Rightarrow> string \<Rightarrow> string + string"
  fork_os :: "world \<Rightarrow> int \<times> string"
  execvp_os :: "world \<Rightarrow> string list \<Rightarrow> string option"
  waitpid_os :: "world \<Rightarrow> int \<Rightarrow> wstatus list"
  malloc_os :: "world \<Rightarrow> nat \<Rightarrow> bool"

text \<open>
  How a C function ends: it returns a value, it ends the process through
  \<^verbatim>\<open>exit(code)\<close>, its process image is replaced by \<^verbatim>\<open>execvp\<close>, it blocks for ever
  in \<^verbatim>\<open>waitpid\<close>, or it overflows an \<^verbatim>\<open>int\<close>, after which C leaves its behaviour
  undefined. Only the first passes control to the code after the call.
\<close>

datatype 'a outcome =
  Returns 'a world
| Exits int world
| Replaced "string list" world
| Blocked world
| Undefined world

fun then_do :: "'a outcome \<Rightarrow> ('a \<Rightarrow> world \<Rightarrow> 'b outcome) \<Rightarrow> 'b outcome" where
  "then_do (Returns x w) k = k x w"
| "then_do (Exits c w) k = Exits c w"
| "then_do (Replaced a w) k = Replaced a w"
| "then_do (Blocked w) k = Blocked w"
| "then_do (Undefined w) k = Undefined w"

definition EXIT_SUCCESS :: int where
  "EXIT_SUCCESS = 0"

definition EXIT_FAILURE :: int where
  "EXIT_FAILURE = 1"

abbreviation Continue :: int where
  "Continue \<equiv> 1"

abbreviation Stop :: int where
  "Stop \<equiv> 0"

definition NL :: char where
  "NL = CHR 0x0A"

definition printf :: "string \<Rightarrow> world \<Rightarrow> world" where
  "printf s w = w\<lparr>out := out w @ s\<rparr>"

definition fprintf_stderr :: "string \<Rightarrow> world \<Rightarrow> world" where
  "fprintf_stderr s w = w\<lparr>err := err w @ s\<rparr>"

definition perror :: "string \<Rightarrow> world \<Rightarrow> world" where
  "perror s w = w\<lparr>err := err w @ s @ '': '' @ errno w @ [NL]\<rparr>"

text \<open>
  An argument vector is a \<^verbatim>\<open>NULL\<close>-terminated array of C strings; the model keeps the
  strings before the terminator. \<open>arg args i\<close> reads \<^verbatim>\<open>args[i]\<close>: \<open>None\<close> is the
  \<^verbatim>\<open>NULL\<close> pointer.
\<close>

definition arg :: "string list \<Rightarrow> nat \<Rightarrow> string option" where
  "arg args i = (if i < length args then Some (args ! i) else None)"

text \<open>\<^verbatim>\<open>strcmp\<close>: zero exactly on equal strings, otherwise the sign of the first difference.\<close>

fun strcmp :: "string \<Rightarrow> string \<Rightarrow> int" where
  "strcmp [] [] = 0"
| "strcmp [] (y # ys) = - 1"
| "strcmp (x # xs) [] = 1"
| "strcmp (x # xs) (y # ys) =
     (if x = y then strcmp xs ys
      else if (of_char x :: nat) < of_char y then - 1 else 1)"

section \<open>The builtin commands\<close>

definition builtin_str :: "string list" where
  "builtin_str = [''cd'', ''help'', ''exit'']"

definition num_of_builtins :: nat where
  "num_of_builtins = length builtin_str"

definition cd :: "os \<Rightarrow> string list \<Rightarrow> world \<Rightarrow> int outcome" where
  "cd os args w =
     (case arg args 1 of
        None \<Rightarrow> Returns 1 (fprintf_stderr ''Error: Please specify a directory'' w)
      | Some p \<Rightarrow>
          (case chdir_os os w p of
             Inl e \<Rightarrow> Returns 1 (perror ''Error: Failed to change directory'' (w\<lparr>errno := e\<rparr>))
           | Inr d \<Rightarrow> Returns 1 (w\<lparr>cwd := d\<rparr>)))"

function help_loop :: "nat \<Rightarrow> world \<Rightarrow> world" where
  "help_loop i w =
     (if i < num_of_builtins
      then help_loop (i + 1) (printf (''  '' @ builtin_str ! i @ [NL]) w)
      else w)"
  by pat_completeness auto
termination
  by (relation "measure (\<lambda>(i, w). num_of_builtins - i)") auto

definition help_cmd :: "os \<Rightarrow> string list \<Rightarrow> world \<Rightarrow> int outcome" where
  "help_cmd os args w =
     Returns 1 (help_loop 0 (printf (''The following are builtin commands:'' @ [NL]) w))"

definition exit_shell :: "os \<Rightarrow> string list \<Rightarrow> world \<Rightarrow> int outcome" where
  "exit_shell os args w = Returns 0 w"

definition builtin_func :: "(os \<Rightarrow> string list \<Rightarrow> world \<Rightarrow> int outcome) list" where
  "builtin_func = [cd, help_cmd, exit_shell]"

section \<open>The process launcher\<close>

text \<open>
  The \<^verbatim>\<open>do ... while\<close> loop of \<open>launch\<close>: each round calls \<^verbatim>\<open>waitpid\<close>, which
  stores the next reported state change in \<^verbatim>\<open>status\<close>, and the loop goes on while the
  status is neither an exit nor a death by signal. Every call is taken to report a state
  change of the child: the program installs no signal handler that could interrupt the
  call, and the child is its own until it is reaped.
\<close>

fun wait_loop :: "wstatus list \<Rightarrow> world \<Rightarrow> unit outcome" where
  "wait_loop [] w = Blocked w"
| "wait_loop (status # later) w =
     (if \<not> WIFEXITED status \<and> \<not> WIFSIGNALED status
      then wait_loop later (w\<lparr>waits := waits w + 1\<rparr>)
      else Returns () (w\<lparr>waits := waits w + 1\<rparr>))"

definition launch :: "os \<Rightarrow> string list \<Rightarrow> world \<Rightarrow> int outcome" where
  "launch os args w =
     then_do
       (case fork_os os w of (pid, e) \<Rightarrow>
          if pid = 0 then
            (case execvp_os os w args of
               None \<Rightarrow> Replaced args w
             | Some x \<Rightarrow> Exits EXIT_FAILURE (perror ''Error: Child process failed'' (w\<lparr>errno := x\<rparr>)))
          else if pid < 0 then
            Returns () (perror ''Error: Forking process failed'' (w\<lparr>errno := e\<rparr>))
          else wait_loop (waitpid_os os w pid) w)
       (\<lambda>_ w'. Returns 1 w')"

section \<open>The dispatcher\<close>

function execute_loop :: "os \<Rightarrow> string list \<Rightarrow> nat \<Rightarrow> world \<Rightarrow> int outcome" where
  "execute_loop os args i w =
     (if i < num_of_builtins then
        (if strcmp (hd args) (builtin_str ! i) = 0 then (builtin_func ! i) os args w
         else execute_loop os args (i + 1) w)
      else launch os args w)"
  by pat_completeness auto
termination
  by (relation "measure (\<lambda>(os, args, i, w). num_of_builtins - i)") auto

definition execute :: "os \<Rightarrow> string list \<Rightarrow> world \<Rightarrow> int outcome" where
  "execute os args w =
     (if arg args 0 = None then Returns 1 w else execute_loop os args 0 w)"

section \<open>Line acquisition\<close>

text \<open>
  \<^verbatim>\<open>getline\<close> of the C library, on standard input: it returns the bytes up to and
  including the next newline, or up to the end of the input when no newline is left, with
  their number; it returns \<open>-1\<close> when it can read no byte at all, at end of file (the
  end-of-file indicator is then set) or on a read error (\<^verbatim>\<open>errno\<close> is then set). The
  result is the returned number, the buffer and the world after the call.
\<close>

definition getline :: "world \<Rightarrow> int \<times> string \<times> world" where
  "getline w =
     (if inp w = [] then
        (case inp_err w of
           None \<Rightarrow> (- 1, [], w\<lparr>eof := True\<rparr>)
         | Some e \<Rightarrow> (- 1, [], w\<lparr>errno := e\<rparr>))
      else
        (case dropWhile (\<lambda>c. c \<noteq> NL) (inp w) of
           [] \<Rightarrow>
             (int (length (inp w)), inp w,
              (case inp_err w of
                 None \<Rightarrow> w\<lparr>inp := [], eof := True\<rparr>
               | Some e \<Rightarrow> w\<lparr>inp := [], errno := e\<rparr>))
         | c # rest \<Rightarrow>
             (int (length (takeWhile (\<lambda>c. c \<noteq> NL) (inp w))) + 1,
              takeWhile (\<lambda>c. c \<noteq> NL) (inp w) @ [NL],
              w\<lparr>inp := rest\<rparr>)))"

definition feof :: "world \<Rightarrow> bool" where
  "feof w = eof w"

definition read_line :: "world \<Rightarrow> string outcome" where
  "read_line w =
     (case getline w of (n, line, w') \<Rightarrow>
        if n = - 1 then
          (if feof w' then Exits EXIT_SUCCESS w'
           else Exits EXIT_FAILURE (perror ''Error: readline error'' w'))
        else Returns line w')"

section \<open>The tokenizer\<close>

definition TOKEN_BUFSIZE :: int where
  "TOKEN_BUFSIZE = 64"

text \<open>The largest value of a C \<^verbatim>\<open>int\<close> (32 bits).\<close>

definition INT_MAX :: int where
  "INT_MAX = 2147483647"

definition TOKEN_DELIM :: string where
  "TOKEN_DELIM = [CHR '' '', CHR 0x09, CHR 0x0D, CHR 0x0A, CHR 0x07]"

text \<open>The size of a \<^verbatim>\<open>char *\<close>, in bytes (an LP64 platform).\<close>

definition sizeof_ptr :: nat where
  "sizeof_ptr = 8"

text \<open>
  The buffer \<^verbatim>\<open>getline\<close> fills may hold zero bytes; every reader of a
  \<^verbatim>\<open>char *\<close> sees the string end at the first of them.
\<close>

definition c_str :: "string \<Rightarrow> string" where
  "c_str buf = takeWhile (\<lambda>c. c \<noteq> CHR 0x00) buf"

text \<open>
  \<^verbatim>\<open>strtok\<close> keeps the rest of the string between calls in a static pointer; in the
  model the rest is passed in and returned. A call skips the delimiters at the front;
  when nothing is left it returns \<^verbatim>\<open>NULL\<close> (\<open>None\<close>), otherwise the token up to the
  next delimiter, which it overwrites with a zero byte, and the rest starts after it.
\<close>

definition strtok :: "string \<Rightarrow> string \<Rightarrow> (string \<times> string) option" where
  "strtok s delim =
     (case dropWhile (\<lambda>c. c \<in> set delim) s of
        [] \<Rightarrow> None
      | c # cs \<Rightarrow>
          Some (takeWhile (\<lambda>c. c \<notin> set delim) (c # cs),
                drop 1 (dropWhile (\<lambda>c. c \<notin> set delim) (c # cs))))"

lemma strtok_shorter: "strtok s delim = Some (t, r) \<Longrightarrow> length r < length s"
proof -
  assume a: "strtok s delim = Some (t, r)"
  then obtain c cs where d: "dropWhile (\<lambda>c. c \<in> set delim) s = c # cs"
    by (auto simp: strtok_def split: list.splits)
  with a have r: "r = drop 1 (dropWhile (\<lambda>c. c \<notin> set delim) (c # cs))"
    by (simp add: strtok_def)
  have "length (dropWhile (\<lambda>c. c \<notin> set delim) (c # cs)) \<le> length (c # cs)"
    by (rule length_dropWhile_le)
  with r have "length r < length (c # cs)"
    by (cases "dropWhile (\<lambda>c. c \<notin> set delim) (c # cs)") auto
  moreover have "length (c # cs) \<le> length s"
    using length_dropWhile_le [of "\<lambda>c. c \<in> set delim" s] d by simp
  ultimately show ?thesis by simp
qed

text \<open>
  The \<^verbatim>\<open>while (token != NULL)\<close> loop of \<open>split_line\<close>. \<open>bufsize\<close> and \<open>position\<close>
  are the two \<^verbatim>\<open>int\<close> counters of the source; an addition that would pass
  \<^verbatim>\<open>INT_MAX\<close> is the outcome \<open>Undefined\<close>. \<open>tokens\<close> holds the entries stored so far:
  the source stores at index \<open>position\<close> and adds one to it, the model appends and adds
  one to it, and both start from nothing stored and \<open>position = 0\<close>.
\<close>

function split_loop ::
  "os \<Rightarrow> world \<Rightarrow> int \<Rightarrow> int \<Rightarrow> string list \<Rightarrow> (string \<times> string) option
     \<Rightarrow> string list outcome" where
  "split_loop os w bufsize position tokens None = Returns tokens w"
| "split_loop os w bufsize position tokens (Some (token, rest)) =
     (if position + 1 > INT_MAX then Undefined w
      else if position + 1 \<ge> bufsize then
        (if bufsize + TOKEN_BUFSIZE > INT_MAX then Undefined w
         else if \<not> malloc_os os w (nat (bufsize + TOKEN_BUFSIZE) * sizeof_ptr)
         then Exits EXIT_FAILURE (fprintf_stderr (''Error: Allocation error'' @ [NL]) w)
         else split_loop os w (bufsize + TOKEN_BUFSIZE) (position + 1) (tokens @ [token])
                (strtok rest TOKEN_DELIM))
      else split_loop os w bufsize (position + 1) (tokens @ [token]) (strtok rest TOKEN_DELIM))"
  by pat_completeness auto
termination
  by (relation "measure (\<lambda>(os, w, bufsize, position, tokens, tok).
        case tok of None \<Rightarrow> 0 | Some (t, r) \<Rightarrow> Suc (length r))")
     (auto split: option.splits dest: strtok_shorter)

definition split_line :: "os \<Rightarrow> string \<Rightarrow> world \<Rightarrow> string list outcome" where
  "split_line os line w =
     (if \<not> malloc_os os w (nat TOKEN_BUFSIZE * sizeof_ptr)
      then Exits EXIT_FAILURE (fprintf_stderr (''Error: Allocation error'' @ [NL]) w)
      else split_loop os w TOKEN_BUFSIZE 0 [] (strtok (c_str line) TOKEN_DELIM))"

section \<open>The specification's tokenizer\<close>

text \<open>The delimiters are the characters of \<^verbatim>\<open>TOKEN_DELIM\<close>.\<close>

definition is_delim :: "char \<Rightarrow> bool" where
  "is_delim c = (c \<in> set TOKEN_DELIM)"

text \<open>
  The tokens the \<^verbatim>\<open>strtok\<close> loop of \<open>split_line\<close> stores, from the result of the call
  before the loop test: the loop without its buffer.
\<close>

function strtok_all :: "(string \<times> string) option \<Rightarrow> string list" where
  "strtok_all None = []"
| "strtok_all (Some (token, rest)) = token # strtok_all (strtok rest TOKEN_DELIM)"
  by pat_completeness auto
termination
  by (relation "measure (\<lambda>tok. case tok of None \<Rightarrow> 0 | Some (t, r) \<Rightarrow> Suc (length r))")
     (auto split: option.splits dest: strtok_shorter)

text \<open>
  The specification's tokenizer, from its words: the line is split at every delimiter
  into fields, and the argument vector is the sequence of the non-empty fields, so a run
  of delimiters separates two tokens as one delimiter does. No character has another
  role: there is no quoting and no escaping.
\<close>

fun delim_fields :: "string \<Rightarrow> string list" where
  "delim_fields [] = [[]]"
| "delim_fields (c # cs) =
     (if is_delim c then [] # delim_fields cs
      else (case delim_fields cs of [] \<Rightarrow> [[c]] | f # fs \<Rightarrow> (c # f) # fs))"

definition spec_tokenize :: "string \<Rightarrow> string list" where
  "spec_tokenize line = filter (\<lambda>t. t \<noteq> []) (delim_fields line)"

text \<open>
  The specification's ``substring up to the first delimiter run'', and its joining of
  tokens with a single space.
\<close>

definition up_to_first_delim :: "string \<Rightarrow> string" where
  "up_to_first_delim line = takeWhile (\<lambda>c. \<not> is_delim c) line"

fun join :: "string list \<Rightarrow> string" where
  "join [] = []"
| "join [t] = t"
| "join (t # t' # ts) = t @ '' '' @ join (t' # ts)"

text \<open>
  The specification's ``whitespace-normalized'' line, defined on the line alone: the
  delimiters at its front and at its end are dropped, and every run of delimiters
  between two other characters becomes one space. \<open>squeeze gap\<close> copies the characters
  that are no delimiters; \<open>gap\<close> says that a delimiter was passed since the last of them.
\<close>

fun squeeze :: "bool \<Rightarrow> string \<Rightarrow> string" where
  "squeeze gap [] = []"
| "squeeze gap (c # cs) =
     (if is_delim c then squeeze True cs
      else if gap then CHR '' '' # c # squeeze False cs
      else c # squeeze False cs)"

definition normalize_ws :: "string \<Rightarrow> string" where
  "normalize_ws line = squeeze False (dropWhile is_delim line)"

section \<open>Concrete worlds\<close>

text \<open>
  A world with nothing written and nothing to read, and an operating system in which no
  directory can be entered, \<^verbatim>\<open>fork\<close> gives child 7, no program can be executed, the
  child is stopped once and then exits with code 0, and memory is always granted. The
  instances below are evaluated on them.
\<close>

definition w0 :: world where
  "w0 = \<lparr>cwd = ''/'', out = [], err = [], inp = [], inp_err = None, eof = False,
          errno = [], waits = 0\<rparr>"

definition os0 :: os where
  "os0 = \<lparr>chdir_os = (\<lambda>w p. Inl ''No such file or directory''),
           fork_os = (\<lambda>w. (7, [])),
           execvp_os = (\<lambda>w a. Some ''No such file or directory''),
           waitpid_os = (\<lambda>w pid. [WStopped 19, WExited 0]),
           malloc_os = (\<lambda>w n. True)\<rparr>"

section \<open>The read-tokenize-dispatch loop\<close>

text \<open>
  Each round of \<open>loop\<close> consumes at least one byte of standard input or ends the
  process, and nothing but \<open>read_line\<close> touches the input: the facts below give the
  measure under which the loop is a total function. An external program is taken not to
  read the shell's standard input.
\<close>

declare help_loop.simps [simp del]
declare execute_loop.simps [simp del]

lemma strcmp_eq0: "strcmp a b = 0 \<longleftrightarrow> a = b"
  by (induction a b rule: strcmp.induct) auto

lemma help_loop_out: "help_loop 0 w = w\<lparr>out := out w @ ''  cd'' @ [NL] @ ''  help'' @ [NL] @ ''  exit'' @ [NL]\<rparr>"
proof -
  have 3: "help_loop (Suc (Suc (Suc 0))) w' = w'" for w'
    by (subst help_loop.simps) (simp add: num_of_builtins_def builtin_str_def)
  have 2: "help_loop (Suc (Suc 0)) w' = printf (''  exit'' @ [NL]) w'" for w'
    by (subst help_loop.simps) (simp add: num_of_builtins_def builtin_str_def 3)
  have 1: "help_loop (Suc 0) w' = printf (''  exit'' @ [NL]) (printf (''  help'' @ [NL]) w')" for w'
    by (subst help_loop.simps) (simp add: num_of_builtins_def builtin_str_def 2)
  have 0: "help_loop 0 w' = printf (''  exit'' @ [NL]) (printf (''  help'' @ [NL]) (printf (''  cd'' @ [NL]) w'))" for w'
    by (subst help_loop.simps) (simp add: num_of_builtins_def builtin_str_def 1)
  show ?thesis by (simp add: 0 printf_def)
qed

lemma execute_loop_0:
  "execute_loop os args 0 w =
     (if hd args = ''cd'' then cd os args w
      else if hd args = ''help'' then help_cmd os args w
      else if hd args = ''exit'' then exit_shell os args w
      else launch os args w)"
proof -
  have 3: "execute_loop os args (Suc (Suc (Suc 0))) w = launch os args w"
    by (subst execute_loop.simps) (simp add: num_of_builtins_def builtin_str_def)
  have 2: "execute_loop os args (Suc (Suc 0)) w = (if hd args = ''exit'' then exit_shell os args w else launch os args w)"
    by (subst execute_loop.simps) (simp add: num_of_builtins_def builtin_str_def builtin_func_def strcmp_eq0 3)
  have 1: "execute_loop os args (Suc 0) w = (if hd args = ''help'' then help_cmd os args w
      else if hd args = ''exit'' then exit_shell os args w else launch os args w)"
    by (subst execute_loop.simps) (simp add: num_of_builtins_def builtin_str_def builtin_func_def strcmp_eq0 2)
  show ?thesis
    by (subst execute_loop.simps) (simp add: num_of_builtins_def builtin_str_def builtin_func_def strcmp_eq0 1)
qed

lemma then_do_cong [fundef_cong]:
  "m = m' \<Longrightarrow> (\<And>x w. m' = Returns x w \<Longrightarrow> k x w = k' x w) \<Longrightarrow> then_do m k = then_do m' k'"
  by (cases m') auto

lemma wait_loop_frame:
  "wait_loop ss w = Returns u w' \<Longrightarrow> inp w' = inp w \<and> inp_err w' = inp_err w \<and> eof w' = eof w"
  by (induction ss arbitrary: w) (auto split: if_splits)

lemma then_do_Returns:
  "then_do m k = Returns y w' \<longleftrightarrow> (\<exists>x w1. m = Returns x w1 \<and> k x w1 = Returns y w')"
  by (cases m) auto

lemma launch_frame:
  "launch os args w = Returns s w' \<Longrightarrow> inp w' = inp w \<and> inp_err w' = inp_err w \<and> eof w' = eof w"
  by (auto simp: launch_def perror_def then_do_Returns split: prod.splits if_splits option.splits
      dest: wait_loop_frame)

lemma execute_frame:
  "execute os args w = Returns s w' \<Longrightarrow> inp w' = inp w \<and> inp_err w' = inp_err w \<and> eof w' = eof w"
  by (auto simp: execute_def execute_loop_0 cd_def help_cmd_def exit_shell_def help_loop_out
      printf_def perror_def fprintf_stderr_def
      split: if_splits option.splits sum.splits dest: launch_frame)

lemma split_loop_world: "split_loop os w b p toks st = Returns a w' \<Longrightarrow> w' = w"
  by (induction os w b p toks st rule: split_loop.induct) (auto split: if_splits)

lemma split_line_world: "split_line os l w = Returns a w' \<Longrightarrow> w' = w"
  by (auto simp: split_line_def split: if_splits dest: split_loop_world)

lemma read_line_shorter:
  assumes "read_line w = Returns l w'"
  shows "length (inp w') < length (inp w)"
proof (cases "inp w = []")
  case True
  with assms show ?thesis
    by (simp add: read_line_def getline_def split: option.splits if_splits)
next
  case False
  show ?thesis
  proof (cases "dropWhile (\<lambda>c. c \<noteq> NL) (inp w)")
    case Nil
    with assms False show ?thesis
      by (auto simp: read_line_def getline_def split: option.splits if_splits)
  next
    case (Cons c rest)
    have "length (dropWhile (\<lambda>c. c \<noteq> NL) (inp w)) \<le> length (inp w)"
      by (rule length_dropWhile_le)
    with Cons have "length rest < length (inp w)" by simp
    with assms False Cons show ?thesis
      by (auto simp: read_line_def getline_def split: if_splits)
  qed
qed

text \<open>
  The \<^verbatim>\<open>do ... while (status)\<close> loop, and \<open>main\<close>, whose return of
  \<^verbatim>\<open>EXIT_SUCCESS\<close> ends the process with that code.
\<close>

function loop :: "os \<Rightarrow> world \<Rightarrow> unit outcome" where
  "loop os w =
     then_do (read_line (printf ''> '' w)) (\<lambda>line w1.
     then_do (split_line os line w1) (\<lambda>args w2.
     then_do (execute os args w2) (\<lambda>status w3.
       if status \<noteq> 0 then loop os w3 else Returns () w3)))"
  by pat_completeness auto
termination
proof (relation "measure (\<lambda>(os, w). length (inp w))")
  show "wf (measure (\<lambda>(os, w). length (inp w)))" by simp
next
  fix os w line w1 args w2 status w3
  assume r: "read_line (printf ''> '' w) = Returns line w1"
    and s: "split_line os line w1 = Returns args w2"
    and e: "execute os args w2 = Returns status w3"
  from r have "length (inp w1) < length (inp (printf ''> '' w))" by (rule read_line_shorter)
  moreover from s have "w2 = w1" by (rule split_line_world)
  moreover from e have "inp w3 = inp w2" by (simp add: execute_frame)
  ultimately show "((os, w3), (os, w)) \<in> measure (\<lambda>(os, w). length (inp w))"
    by (simp add: printf_def)
qed

declare loop.simps [simp del]

definition main :: "os \<Rightarrow> world \<Rightarrow> unit outcome" where
  "main os w = then_do (loop os w) (\<lambda>_ w'. Exits EXIT_SUCCESS w')"

section \<open>The builtins, through the dispatcher\<close>

text \<open>
  C4. Every argument vector whose first element is the string \<open>exit\<close> is dispatched to
  \<open>exit_shell\<close>, which returns \<open>Stop\<close> (the C value 0) whatever follows the command name,
  and leaves the world as it found it: nothing is written, changed or launched.
\<close>

theorem exit_stops:
  "execute os (''exit'' # rest) w = Returns Stop w \<and> exit_shell os args w = Returns Stop w"
  by (simp add: execute_def arg_def execute_loop_0 exit_shell_def)

theorem exit_stops_witness:
  "execute os0 [''exit'', ''now''] w0 = Returns Stop w0"
  using exit_stops [of os0 "[''now'']" w0] by simp

text \<open>
  C6, as the code has it. Dispatching \<open>help\<close> returns \<open>Continue\<close> and appends four lines to
  standard output: the heading \<^verbatim>\<open>The following are builtin commands:\<close>, then the
  names \<open>cd\<close>, \<open>help\<close> and \<open>exit\<close> in the order of the table, each on a line of its own
  after two spaces. Nothing else in the world changes.
\<close>

theorem help_lists_builtins:
  "execute os (''help'' # rest) w =
     Returns Continue
       (w\<lparr>out := out w @ ''The following are builtin commands:'' @ [NL]
                 @ ''  cd'' @ [NL] @ ''  help'' @ [NL] @ ''  exit'' @ [NL]\<rparr>)"
  by (simp add: execute_def arg_def execute_loop_0 help_cmd_def help_loop_out printf_def)

theorem help_lists_builtins_witness:
  "execute os0 [''help''] w0 =
     Returns Continue
       (w0\<lparr>out := ''The following are builtin commands:'' @ [NL]
                 @ ''  cd'' @ [NL] @ ''  help'' @ [NL] @ ''  exit'' @ [NL]\<rparr>)"
  using help_lists_builtins [of os0 "[]" w0] by (simp add: w0_def)

text \<open>
  C6, as the claim words it, fails: the output of \<open>help\<close> is not the three names alone,
  one per line. The heading comes first and each name is indented.
\<close>

theorem help_names_only_counterexample:
  "\<not> (\<exists>w'. execute os0 [''help''] w0 = Returns Continue w'
        \<and> out w' = out w0 @ ''cd'' @ [NL] @ ''help'' @ [NL] @ ''exit'' @ [NL])"
  by (simp add: execute_def arg_def execute_loop_0 help_cmd_def help_loop_out printf_def w0_def)

text \<open>
  C7. \<open>cd\<close> without a path writes \<^verbatim>\<open>Error: Please specify a directory\<close> to the
  diagnostic stream and returns \<open>Continue\<close>; \<open>cd p\<close> where \<^verbatim>\<open>chdir(p)\<close> fails writes
  \<^verbatim>\<open>Error: Failed to change directory\<close> with the reason and returns \<open>Continue\<close>. In
  both results the working directory is the one before the call (the only fields that
  differ are \<open>err\<close> and \<open>errno\<close>). Whatever its arguments, \<open>cd\<close> returns, and what it
  returns is \<open>Continue\<close>.
\<close>

theorem cd_error_atomic:
  "execute os [''cd''] w =
     Returns Continue (w\<lparr>err := err w @ ''Error: Please specify a directory''\<rparr>)
   \<and> (chdir_os os w p = Inl e \<longrightarrow>
        execute os (''cd'' # p # rest) w =
          Returns Continue
            (w\<lparr>errno := e, err := err w @ ''Error: Failed to change directory: '' @ e @ [NL]\<rparr>))
   \<and> (\<exists>w'. execute os (''cd'' # rest) w = Returns Continue w')
   \<and> (\<exists>w'. cd os args w = Returns Continue w')"
  by (auto simp: execute_def arg_def execute_loop_0 cd_def fprintf_stderr_def perror_def
      split: option.splits sum.splits)

theorem cd_error_atomic_witness:
  "execute os0 [''cd''] w0 =
     Returns Continue (w0\<lparr>err := ''Error: Please specify a directory''\<rparr>)
   \<and> chdir_os os0 w0 ''/nonexistent-xyz'' = Inl ''No such file or directory''
   \<and> execute os0 [''cd'', ''/nonexistent-xyz''] w0 =
          Returns Continue
            (w0\<lparr>errno := ''No such file or directory'',
                err := ''Error: Failed to change directory: No such file or directory'' @ [NL]\<rparr>)"
proof -
  have h: "chdir_os os0 w0 ''/nonexistent-xyz'' = Inl ''No such file or directory''"
    by (simp add: os0_def)
  from cd_error_atomic [of os0 w0 "''/nonexistent-xyz''" "''No such file or directory''" "[]"] h
  show ?thesis by (simp add: w0_def)
qed

section \<open>The process launcher and its child\<close>

text \<open>
  A status that is neither an exit nor a death by signal is a stop. The wait loop passes
  over a run of stops at one call of \<^verbatim>\<open>waitpid\<close> each, returns at the first exit or
  death, and whenever it returns it has just seen one.
\<close>

lemma not_terminal_iff: "(\<not> WIFEXITED s \<and> \<not> WIFSIGNALED s) \<longleftrightarrow> WIFSTOPPED s"
  by (cases s) simp_all

lemma wait_loop_skip:
  "\<forall>s\<in>set pre. WIFSTOPPED s \<Longrightarrow>
     wait_loop (pre @ rest) w = wait_loop rest (w\<lparr>waits := waits w + length pre\<rparr>)"
proof (induction pre arbitrary: w)
  case Nil
  show ?case by simp
next
  case (Cons s pre)
  then have "\<not> WIFEXITED s \<and> \<not> WIFSIGNALED s" and "\<forall>s\<in>set pre. WIFSTOPPED s"
    by (simp_all add: not_terminal_iff)
  with Cons.IH [of "w\<lparr>waits := waits w + 1\<rparr>"] show ?case by simp
qed

lemma wait_loop_terminal:
  "WIFEXITED t \<or> WIFSIGNALED t \<Longrightarrow>
     wait_loop (t # post) w = Returns () (w\<lparr>waits := waits w + 1\<rparr>)"
  by auto

lemma wait_loop_Returns:
  "wait_loop ss w = Returns u w' \<Longrightarrow>
     \<exists>pre t post. ss = pre @ t # post \<and> (\<forall>s\<in>set pre. WIFSTOPPED s)
        \<and> (WIFEXITED t \<or> WIFSIGNALED t) \<and> w' = w\<lparr>waits := waits w + length pre + 1\<rparr>"
proof (induction ss arbitrary: w)
  case Nil
  then show ?case by simp
next
  case (Cons s ss)
  show ?case
  proof (cases "WIFSTOPPED s")
    case True
    with Cons.prems have "wait_loop ss (w\<lparr>waits := waits w + 1\<rparr>) = Returns u w'"
      by (simp add: not_terminal_iff)
    from Cons.IH [OF this] obtain pre t post where
      "ss = pre @ t # post" "\<forall>s\<in>set pre. WIFSTOPPED s" "WIFEXITED t \<or> WIFSIGNALED t"
      "w' = w\<lparr>waits := waits w + 1 + length pre + 1\<rparr>"
      by auto
    with True have "s # ss = (s # pre) @ t # post \<and> (\<forall>x\<in>set (s # pre). WIFSTOPPED x)
        \<and> (WIFEXITED t \<or> WIFSIGNALED t) \<and> w' = w\<lparr>waits := waits w + length (s # pre) + 1\<rparr>"
      by simp
    then show ?thesis by blast
  next
    case False
    with Cons.prems have "w' = w\<lparr>waits := waits w + 1\<rparr>" and "WIFEXITED s \<or> WIFSIGNALED s"
      by (auto simp: not_terminal_iff [symmetric])
    then have "s # ss = [] @ s # ss \<and> (\<forall>x\<in>set []. WIFSTOPPED x)
        \<and> (WIFEXITED s \<or> WIFSIGNALED s) \<and> w' = w\<lparr>waits := waits w + length ([] :: wstatus list) + 1\<rparr>"
      by simp
    then show ?thesis by blast
  qed
qed

lemma launch_parent:
  "fork_os os w = (pid, e) \<Longrightarrow> 0 < pid \<Longrightarrow>
     launch os args w = then_do (wait_loop (waitpid_os os w pid) w) (\<lambda>_ w'. Returns Continue w')"
  by (simp add: launch_def)

text \<open>
  C1. Whenever \<open>launch\<close> returns, it returns \<open>Continue\<close>. When \<^verbatim>\<open>fork\<close> fails it writes
  \<^verbatim>\<open>Error: Forking process failed\<close> with the reason to the diagnostic stream and
  returns \<open>Continue\<close> at once: \<open>waits\<close> is unchanged, so there was no blocking call. When
  \<^verbatim>\<open>fork\<close> gives a child and the child, after any number of stops, exits with any code
  or is killed by any signal, \<open>launch\<close> returns \<open>Continue\<close> after one \<^verbatim>\<open>waitpid\<close> per
  reported state, with nothing else in the world changed. A command that is not a
  builtin is dispatched to \<open>launch\<close>, so no external program makes \<open>execute\<close> return \<open>Stop\<close>.
\<close>

theorem launch_continues:
  "(\<forall>r w'. launch os args w = Returns r w' \<longrightarrow> r = Continue)
   \<and> (fork_os os w = (pid, e) \<and> pid < 0 \<longrightarrow>
        launch os args w =
          Returns Continue
            (w\<lparr>errno := e, err := err w @ ''Error: Forking process failed: '' @ e @ [NL]\<rparr>))
   \<and> (fork_os os w = (pid, e) \<and> 0 < pid \<and> waitpid_os os w pid = pre @ t # post
        \<and> (\<forall>s\<in>set pre. WIFSTOPPED s) \<and> (WIFEXITED t \<or> WIFSIGNALED t) \<longrightarrow>
        launch os args w = Returns Continue (w\<lparr>waits := waits w + length pre + 1\<rparr>))
   \<and> (args \<noteq> [] \<and> hd args \<notin> set builtin_str \<longrightarrow> execute os args w = launch os args w)"
proof (intro conjI allI impI)
  fix r w' assume "launch os args w = Returns r w'"
  then show "r = Continue"
    by (auto simp: launch_def then_do_Returns)
next
  assume "fork_os os w = (pid, e) \<and> pid < 0"
  then show "launch os args w =
          Returns Continue
            (w\<lparr>errno := e, err := err w @ ''Error: Forking process failed: '' @ e @ [NL]\<rparr>)"
    by (simp add: launch_def perror_def)
next
  assume a: "fork_os os w = (pid, e) \<and> 0 < pid \<and> waitpid_os os w pid = pre @ t # post
        \<and> (\<forall>s\<in>set pre. WIFSTOPPED s) \<and> (WIFEXITED t \<or> WIFSIGNALED t)"
  then have "wait_loop (waitpid_os os w pid) w = Returns () (w\<lparr>waits := waits w + length pre + 1\<rparr>)"
    by (simp add: wait_loop_skip wait_loop_terminal del: wait_loop.simps)
  with a show "launch os args w = Returns Continue (w\<lparr>waits := waits w + length pre + 1\<rparr>)"
    by (simp add: launch_parent)
next
  assume "args \<noteq> [] \<and> hd args \<notin> set builtin_str"
  then show "execute os args w = launch os args w"
    by (simp add: execute_def arg_def execute_loop_0 builtin_str_def)
qed

theorem launch_continues_witness:
  "launch (os0\<lparr>fork_os := \<lambda>w. (- 1, ''Resource temporarily unavailable'')\<rparr>) [''ls''] w0 =
     Returns Continue
       (w0\<lparr>errno := ''Resource temporarily unavailable'',
           err := ''Error: Forking process failed: Resource temporarily unavailable'' @ [NL]\<rparr>)
   \<and> launch (os0\<lparr>waitpid_os := \<lambda>w pid. [WStopped 19, WExited 3]\<rparr>) [''ls''] w0 =
       Returns Continue (w0\<lparr>waits := 2\<rparr>)
   \<and> launch (os0\<lparr>waitpid_os := \<lambda>w pid. [WSignaled 9]\<rparr>) [''ls''] w0 =
       Returns Continue (w0\<lparr>waits := 1\<rparr>)
   \<and> execute os0 [''ls''] w0 = launch os0 [''ls''] w0"
proof (intro conjI)
  show "launch (os0\<lparr>fork_os := \<lambda>w. (- 1, ''Resource temporarily unavailable'')\<rparr>) [''ls''] w0 =
     Returns Continue
       (w0\<lparr>errno := ''Resource temporarily unavailable'',
           err := ''Error: Forking process failed: Resource temporarily unavailable'' @ [NL]\<rparr>)"
    using launch_continues [of "os0\<lparr>fork_os := \<lambda>w. (- 1, ''Resource temporarily unavailable'')\<rparr>"
        "[''ls'']" w0 "- 1" "''Resource temporarily unavailable''"]
    by (simp add: w0_def)
  show "launch (os0\<lparr>waitpid_os := \<lambda>w pid. [WStopped 19, WExited 3]\<rparr>) [''ls''] w0 =
       Returns Continue (w0\<lparr>waits := 2\<rparr>)"
    using launch_continues [of "os0\<lparr>waitpid_os := \<lambda>w pid. [WStopped 19, WExited 3]\<rparr>"
        "[''ls'']" w0 7 "[]" "[WStopped 19]" "WExited 3" "[]"]
    by (simp add: w0_def os0_def)
  show "launch (os0\<lparr>waitpid_os := \<lambda>w pid. [WSignaled 9]\<rparr>) [''ls''] w0 =
       Returns Continue (w0\<lparr>waits := 1\<rparr>)"
    using launch_continues [of "os0\<lparr>waitpid_os := \<lambda>w pid. [WSignaled 9]\<rparr>"
        "[''ls'']" w0 7 "[]" "[]" "WSignaled 9" "[]"]
    by (simp add: w0_def os0_def)
  show "execute os0 [''ls''] w0 = launch os0 [''ls''] w0"
    using launch_continues [of os0 "[''ls'']" w0] by (simp add: builtin_str_def)
qed

text \<open>
  C2. In the child (\<^verbatim>\<open>fork\<close> returned 0): when \<^verbatim>\<open>execvp\<close> fails, \<open>launch\<close> writes
  \<^verbatim>\<open>Error: Child process failed\<close> with the reason to the diagnostic stream and ends
  the process with \<^verbatim>\<open>EXIT_FAILURE\<close>, which is not 0; when it succeeds the image is
  replaced. In neither case does \<open>launch\<close> return or wait, and whatever code follows the
  call of \<open>launch\<close> (the continuation \<open>k\<close>) is not run.
\<close>

theorem child_never_returns:
  assumes "fork_os os w = (0, e)"
  shows "(\<forall>x. execvp_os os w args = Some x \<longrightarrow>
            launch os args w =
              Exits EXIT_FAILURE
                (w\<lparr>errno := x, err := err w @ ''Error: Child process failed: '' @ x @ [NL]\<rparr>))
       \<and> EXIT_FAILURE \<noteq> 0
       \<and> (execvp_os os w args = None \<longrightarrow> launch os args w = Replaced args w)
       \<and> (\<forall>r w'. launch os args w \<noteq> Returns r w')
       \<and> (\<forall>w'. launch os args w \<noteq> Blocked w')
       \<and> (\<forall>k. then_do (launch os args w) k = launch os args w)"
  using assms
  by (cases "execvp_os os w args") (simp_all add: launch_def perror_def EXIT_FAILURE_def)

theorem child_never_returns_witness:
  "fork_os (os0\<lparr>fork_os := \<lambda>w. (0, [])\<rparr>) w0 = (0, [])
   \<and> execvp_os (os0\<lparr>fork_os := \<lambda>w. (0, [])\<rparr>) w0 [''nosuchprog''] = Some ''No such file or directory''
   \<and> launch (os0\<lparr>fork_os := \<lambda>w. (0, [])\<rparr>) [''nosuchprog''] w0 =
       Exits 1
         (w0\<lparr>errno := ''No such file or directory'',
             err := ''Error: Child process failed: No such file or directory'' @ [NL]\<rparr>)
   \<and> execute (os0\<lparr>fork_os := \<lambda>w. (0, [])\<rparr>) [''nosuchprog''] w0 =
       Exits 1
         (w0\<lparr>errno := ''No such file or directory'',
             err := ''Error: Child process failed: No such file or directory'' @ [NL]\<rparr>)"
proof -
  have f: "fork_os (os0\<lparr>fork_os := \<lambda>w. (0, [])\<rparr>) w0 = (0, [])"
    by simp
  have x: "execvp_os (os0\<lparr>fork_os := \<lambda>w. (0, [])\<rparr>) w0 [''nosuchprog''] = Some ''No such file or directory''"
    by (simp add: os0_def)
  have e: "execute (os0\<lparr>fork_os := \<lambda>w. (0, [])\<rparr>) [''nosuchprog''] w0 =
      launch (os0\<lparr>fork_os := \<lambda>w. (0, [])\<rparr>) [''nosuchprog''] w0"
    by (simp add: execute_def arg_def execute_loop_0)
  from child_never_returns [OF f, of "[''nosuchprog'']"] f x e show ?thesis
    by (simp add: w0_def EXIT_FAILURE_def)
qed

text \<open>
  C3. In the parent of a child that was created (\<^verbatim>\<open>fork\<close> returned a positive id):
  stops reported by \<^verbatim>\<open>waitpid\<close> are passed over, each at the price of one more call;
  when stops are all that is ever reported, \<open>launch\<close> does not return; and whenever
  \<open>launch\<close> returns, every status before the last one seen was a stop and the last one
  was an exit or a death by signal, not a stop.
\<close>

theorem wait_skips_stopped:
  assumes "fork_os os w = (pid, e)" and "0 < pid"
  shows "(\<forall>pre rest. waitpid_os os w pid = pre @ rest \<and> (\<forall>s\<in>set pre. WIFSTOPPED s) \<longrightarrow>
            launch os args w =
              then_do (wait_loop rest (w\<lparr>waits := waits w + length pre\<rparr>))
                (\<lambda>_ w'. Returns Continue w'))
       \<and> ((\<forall>s\<in>set (waitpid_os os w pid). WIFSTOPPED s) \<longrightarrow>
            launch os args w = Blocked (w\<lparr>waits := waits w + length (waitpid_os os w pid)\<rparr>))
       \<and> (\<forall>r w'. launch os args w = Returns r w' \<longrightarrow>
            (\<exists>pre t post. waitpid_os os w pid = pre @ t # post \<and> (\<forall>s\<in>set pre. WIFSTOPPED s)
               \<and> (WIFEXITED t \<or> WIFSIGNALED t) \<and> \<not> WIFSTOPPED t
               \<and> w' = w\<lparr>waits := waits w + length pre + 1\<rparr>))"
proof (intro conjI allI impI)
  fix pre rest
  assume "waitpid_os os w pid = pre @ rest \<and> (\<forall>s\<in>set pre. WIFSTOPPED s)"
  then show "launch os args w =
      then_do (wait_loop rest (w\<lparr>waits := waits w + length pre\<rparr>)) (\<lambda>_ w'. Returns Continue w')"
    using assms by (simp add: launch_parent wait_loop_skip)
next
  assume a: "\<forall>s\<in>set (waitpid_os os w pid). WIFSTOPPED s"
  have "wait_loop (waitpid_os os w pid @ []) w =
      wait_loop [] (w\<lparr>waits := waits w + length (waitpid_os os w pid)\<rparr>)"
    using a by (rule wait_loop_skip)
  then show "launch os args w = Blocked (w\<lparr>waits := waits w + length (waitpid_os os w pid)\<rparr>)"
    using assms by (simp add: launch_parent)
next
  fix r w'
  assume "launch os args w = Returns r w'"
  with assms have "wait_loop (waitpid_os os w pid) w = Returns () w'"
    by (auto simp: launch_parent then_do_Returns)
  from wait_loop_Returns [OF this] obtain pre t post where
    p: "waitpid_os os w pid = pre @ t # post" "\<forall>s\<in>set pre. WIFSTOPPED s"
       "WIFEXITED t \<or> WIFSIGNALED t" "w' = w\<lparr>waits := waits w + length pre + 1\<rparr>"
    by blast
  from p(3) have "\<not> WIFSTOPPED t" by (simp add: not_terminal_iff [symmetric])
  with p show "\<exists>pre t post. waitpid_os os w pid = pre @ t # post \<and> (\<forall>s\<in>set pre. WIFSTOPPED s)
               \<and> (WIFEXITED t \<or> WIFSIGNALED t) \<and> \<not> WIFSTOPPED t
               \<and> w' = w\<lparr>waits := waits w + length pre + 1\<rparr>"
    by blast
qed

theorem wait_skips_stopped_witness:
  "fork_os os0 w0 = (7, []) \<and> (0::int) < 7
   \<and> launch (os0\<lparr>waitpid_os := \<lambda>w pid. [WStopped 19, WStopped 20]\<rparr>) [''vi''] w0 =
       Blocked (w0\<lparr>waits := 2\<rparr>)
   \<and> launch os0 [''vi''] w0 = Returns Continue (w0\<lparr>waits := 2\<rparr>)"
proof -
  have f: "fork_os os0 w0 = (7, [])"
    by (simp add: os0_def)
  have f': "fork_os (os0\<lparr>waitpid_os := \<lambda>w pid. [WStopped 19, WStopped 20]\<rparr>) w0 = (7, [])"
    by (simp add: os0_def)
  have p: "(0::int) < 7" by simp
  have s: "waitpid_os os0 w0 7 = [WStopped 19] @ [WExited 0] \<and> (\<forall>s\<in>set [WStopped 19]. WIFSTOPPED s)"
    by (simp add: os0_def)
  from wait_skips_stopped [OF f' p, of "[''vi'']"]
  have 1: "launch (os0\<lparr>waitpid_os := \<lambda>w pid. [WStopped 19, WStopped 20]\<rparr>) [''vi''] w0 =
       Blocked (w0\<lparr>waits := 2\<rparr>)"
    by (simp add: w0_def)
  from wait_skips_stopped [OF f p, of "[''vi'']"] s
  have "launch os0 [''vi''] w0 =
      then_do (wait_loop [WExited 0] (w0\<lparr>waits := waits w0 + length [WStopped 19]\<rparr>))
        (\<lambda>_ w'. Returns Continue w')"
    by blast
  then have 2: "launch os0 [''vi''] w0 = Returns Continue (w0\<lparr>waits := 2\<rparr>)"
    by (simp add: w0_def)
  from f p 1 2 show ?thesis by simp
qed

section \<open>Line acquisition and the end of the input\<close>

text \<open>
  What \<open>read_line\<close> does at the end of the input, on a read error, and on input that is
  left; and what the loop does when its first read finds the end of the input.
\<close>

lemma read_line_eof:
  "inp w = [] \<Longrightarrow> inp_err w = None \<Longrightarrow> read_line w = Exits EXIT_SUCCESS (w\<lparr>eof := True\<rparr>)"
  by (simp add: read_line_def getline_def feof_def)

lemma read_line_error:
  "inp w = [] \<Longrightarrow> inp_err w = Some e \<Longrightarrow> \<not> eof w \<Longrightarrow>
     read_line w =
       Exits EXIT_FAILURE (w\<lparr>errno := e, err := err w @ ''Error: readline error: '' @ e @ [NL]\<rparr>)"
  by (simp add: read_line_def getline_def feof_def perror_def)

lemma read_line_some:
  "inp w \<noteq> [] \<Longrightarrow> \<exists>l w'. read_line w = Returns l w' \<and> l \<noteq> []"
  by (simp add: read_line_def getline_def split: list.splits)

lemma read_line_last:
  "inp w \<noteq> [] \<Longrightarrow> NL \<notin> set (inp w) \<Longrightarrow> inp_err w = None \<Longrightarrow>
     read_line w = Returns (inp w) (w\<lparr>inp := [], eof := True\<rparr>)"
proof -
  assume a: "inp w \<noteq> []" "NL \<notin> set (inp w)" "inp_err w = None"
  have d: "dropWhile (\<lambda>c. c \<noteq> NL) (inp w) = []"
    unfolding dropWhile_eq_Nil_conv using a(2) by blast
  show ?thesis
    by (simp add: read_line_def getline_def d a)
qed

lemma loop_eof:
  "inp w = [] \<Longrightarrow> inp_err w = None \<Longrightarrow>
     loop os w = Exits EXIT_SUCCESS (w\<lparr>out := out w @ ''> '', eof := True\<rparr>)"
  by (subst loop.simps) (simp add: printf_def read_line_eof)

lemma loop_error:
  "inp w = [] \<Longrightarrow> inp_err w = Some e \<Longrightarrow> \<not> eof w \<Longrightarrow>
     loop os w =
       Exits EXIT_FAILURE
         (w\<lparr>out := out w @ ''> '', errno := e,
            err := err w @ ''Error: readline error: '' @ e @ [NL]\<rparr>)"
  by (subst loop.simps) (simp add: printf_def read_line_error)

lemma read_line_outcomes:
  "(\<exists>l w'. read_line w = Returns l w') \<or> (\<exists>w'. read_line w = Exits EXIT_SUCCESS w')
     \<or> (\<exists>w'. read_line w = Exits EXIT_FAILURE w')"
  by (simp add: read_line_def getline_def split: list.splits option.splits)

lemma read_line_exit0:
  "read_line v = Exits EXIT_SUCCESS v' \<Longrightarrow> inp v = []"
  by (cases "inp v = []")
     (auto simp: read_line_def getline_def split: list.splits option.splits if_splits)

lemma split_line_help: "split_line os0 ''help'' w = Returns [''help''] w"
  by (simp add: split_line_def os0_def c_str_def strtok_def TOKEN_DELIM_def TOKEN_BUFSIZE_def
      INT_MAX_def)

text \<open>
  C5. When no byte is left and the input is at its end, \<open>read_line\<close> ends the process
  with \<^verbatim>\<open>EXIT_SUCCESS\<close>, which is 0, and writes nothing. When no byte is left and the
  read fails instead (the end-of-file indicator not being set), it writes
  \<^verbatim>\<open>Error: readline error\<close> with the reason to the diagnostic stream and ends the
  process with \<^verbatim>\<open>EXIT_FAILURE\<close>, which is not 0. When a byte is left it returns a
  non-empty line. These are all its outcomes: a line, exit 0 or exit 1. In the loop the
  first two cases end the process right after the prompt: no line is tokenized and
  nothing is dispatched.
\<close>

theorem read_line_failures:
  "(inp w = [] \<and> inp_err w = None \<longrightarrow> read_line w = Exits EXIT_SUCCESS (w\<lparr>eof := True\<rparr>))
   \<and> EXIT_SUCCESS = 0
   \<and> (inp w = [] \<and> inp_err w = Some e \<and> \<not> eof w \<longrightarrow>
        read_line w =
          Exits EXIT_FAILURE
            (w\<lparr>errno := e, err := err w @ ''Error: readline error: '' @ e @ [NL]\<rparr>))
   \<and> EXIT_FAILURE \<noteq> 0
   \<and> (inp w \<noteq> [] \<longrightarrow> (\<exists>l w'. read_line w = Returns l w' \<and> l \<noteq> []))
   \<and> ((\<exists>l w'. read_line w = Returns l w') \<or> (\<exists>w'. read_line w = Exits EXIT_SUCCESS w')
        \<or> (\<exists>w'. read_line w = Exits EXIT_FAILURE w'))
   \<and> (inp w = [] \<and> inp_err w = None \<longrightarrow>
        loop os w = Exits EXIT_SUCCESS (w\<lparr>out := out w @ ''> '', eof := True\<rparr>))
   \<and> (inp w = [] \<and> inp_err w = Some e \<and> \<not> eof w \<longrightarrow>
        loop os w =
          Exits EXIT_FAILURE
            (w\<lparr>out := out w @ ''> '', errno := e,
               err := err w @ ''Error: readline error: '' @ e @ [NL]\<rparr>))"
  using read_line_some [of w] read_line_outcomes [of w]
  by (simp add: read_line_eof read_line_error loop_eof loop_error
      EXIT_SUCCESS_def EXIT_FAILURE_def)

theorem read_line_failures_witness:
  "read_line w0 = Exits 0 (w0\<lparr>eof := True\<rparr>)
   \<and> loop os0 w0 = Exits 0 (w0\<lparr>out := ''> '', eof := True\<rparr>)
   \<and> read_line (w0\<lparr>inp_err := Some ''Input/output error''\<rparr>) =
       Exits 1
         (w0\<lparr>inp_err := Some ''Input/output error'', errno := ''Input/output error'',
             err := ''Error: readline error: Input/output error'' @ [NL]\<rparr>)
   \<and> loop os0 (w0\<lparr>inp_err := Some ''Input/output error''\<rparr>) =
       Exits 1
         (w0\<lparr>inp_err := Some ''Input/output error'', out := ''> '', errno := ''Input/output error'',
             err := ''Error: readline error: Input/output error'' @ [NL]\<rparr>)"
proof -
  have a: "inp w0 = [] \<and> inp_err w0 = None"
    by (simp add: w0_def)
  have b: "inp (w0\<lparr>inp_err := Some ''Input/output error''\<rparr>) = []
      \<and> inp_err (w0\<lparr>inp_err := Some ''Input/output error''\<rparr>) = Some ''Input/output error''
      \<and> \<not> eof (w0\<lparr>inp_err := Some ''Input/output error''\<rparr>)"
    by (simp add: w0_def EXIT_SUCCESS_def EXIT_FAILURE_def)
  from read_line_failures [of w0 "[]" os0] a
  have 1: "read_line w0 = Exits 0 (w0\<lparr>eof := True\<rparr>)
      \<and> loop os0 w0 = Exits 0 (w0\<lparr>out := ''> '', eof := True\<rparr>)"
    by (simp add: w0_def EXIT_SUCCESS_def EXIT_FAILURE_def)
  from read_line_failures [of "w0\<lparr>inp_err := Some ''Input/output error''\<rparr>" "''Input/output error''" os0] b
  have 2: "read_line (w0\<lparr>inp_err := Some ''Input/output error''\<rparr>) =
       Exits 1
         (w0\<lparr>inp_err := Some ''Input/output error'', errno := ''Input/output error'',
             err := ''Error: readline error: Input/output error'' @ [NL]\<rparr>)
   \<and> loop os0 (w0\<lparr>inp_err := Some ''Input/output error''\<rparr>) =
       Exits 1
         (w0\<lparr>inp_err := Some ''Input/output error'', out := ''> '', errno := ''Input/output error'',
             err := ''Error: readline error: Input/output error'' @ [NL]\<rparr>)"
    by (simp add: w0_def EXIT_SUCCESS_def EXIT_FAILURE_def)
  from 1 2 show ?thesis by simp
qed

text \<open>
  C10. When the unread input is a non-empty last line without a newline and the input
  then ends, \<open>read_line\<close> returns that line whole; the read after it finds nothing and
  ends the process with code 0. The loop therefore tokenizes and dispatches the line as
  any other, and only in the next round, when the dispatch returned a non-zero status,
  does it exit with 0 after the prompt. \<open>read_line\<close> exits with 0 only when no byte was
  left to read.
\<close>

theorem final_line_without_newline:
  assumes "inp w = l" and "l \<noteq> []" and "NL \<notin> set l" and "inp_err w = None"
  shows "read_line w = Returns l (w\<lparr>inp := [], eof := True\<rparr>)
       \<and> read_line (w\<lparr>inp := [], eof := True\<rparr>) = Exits EXIT_SUCCESS (w\<lparr>inp := [], eof := True\<rparr>)
       \<and> loop os w =
           then_do (split_line os l (w\<lparr>out := out w @ ''> '', inp := [], eof := True\<rparr>))
             (\<lambda>args w2. then_do (execute os args w2)
               (\<lambda>status w3.
                  if status \<noteq> 0
                  then Exits EXIT_SUCCESS (w3\<lparr>out := out w3 @ ''> '', eof := True\<rparr>)
                  else Returns () w3))
       \<and> (\<forall>v v'. read_line v = Exits EXIT_SUCCESS v' \<longrightarrow> inp v = [])"
proof (intro conjI allI impI)
  from assms show 1: "read_line w = Returns l (w\<lparr>inp := [], eof := True\<rparr>)"
    using read_line_last [of w] by simp
  from assms show "read_line (w\<lparr>inp := [], eof := True\<rparr>) =
      Exits EXIT_SUCCESS (w\<lparr>inp := [], eof := True\<rparr>)"
    using read_line_eof [of "w\<lparr>inp := [], eof := True\<rparr>"] by simp
  let ?w1 = "w\<lparr>out := out w @ ''> '', inp := [], eof := True\<rparr>"
  from assms have r: "read_line (printf ''> '' w) = Returns l ?w1"
    using read_line_last [of "printf ''> '' w"] by (simp add: printf_def)
  have k: "(if status \<noteq> 0 then loop os w3 else Returns () w3) =
        (if status \<noteq> 0 then Exits EXIT_SUCCESS (w3\<lparr>out := out w3 @ ''> '', eof := True\<rparr>)
         else Returns () w3)"
    if s: "split_line os l ?w1 = Returns args w2" and e: "execute os args w2 = Returns status w3"
    for args w2 status w3
  proof -
    from s have "w2 = ?w1" by (rule split_line_world)
    with execute_frame [OF e] assms have "inp w3 = []" and "inp_err w3 = None"
      by simp_all
    then show ?thesis by (simp add: loop_eof)
  qed
  have "loop os w =
      then_do (split_line os l ?w1)
        (\<lambda>args w2. then_do (execute os args w2)
          (\<lambda>status w3. if status \<noteq> 0 then loop os w3 else Returns () w3))"
    by (subst loop.simps) (simp add: r)
  also have "\<dots> =
      then_do (split_line os l ?w1)
        (\<lambda>args w2. then_do (execute os args w2)
          (\<lambda>status w3.
             if status \<noteq> 0
             then Exits EXIT_SUCCESS (w3\<lparr>out := out w3 @ ''> '', eof := True\<rparr>)
             else Returns () w3))"
    by (intro then_do_cong refl) (rule k)
  finally show "loop os w =
      then_do (split_line os l ?w1)
        (\<lambda>args w2. then_do (execute os args w2)
          (\<lambda>status w3.
             if status \<noteq> 0
             then Exits EXIT_SUCCESS (w3\<lparr>out := out w3 @ ''> '', eof := True\<rparr>)
             else Returns () w3))" .
next
  fix v v' assume "read_line v = Exits EXIT_SUCCESS v'"
  then show "inp v = []" by (rule read_line_exit0)
qed

theorem final_line_without_newline_witness:
  "read_line (w0\<lparr>inp := ''help''\<rparr>) = Returns ''help'' (w0\<lparr>inp := [], eof := True\<rparr>)
   \<and> read_line (w0\<lparr>inp := [], eof := True\<rparr>) = Exits 0 (w0\<lparr>inp := [], eof := True\<rparr>)
   \<and> loop os0 (w0\<lparr>inp := ''help''\<rparr>) =
       Exits 0
         (w0\<lparr>out := ''> The following are builtin commands:'' @ [NL]
                 @ ''  cd'' @ [NL] @ ''  help'' @ [NL] @ ''  exit'' @ [NL] @ ''> '',
             eof := True\<rparr>)"
proof -
  have h: "inp (w0\<lparr>inp := ''help''\<rparr>) = ''help''" "''help'' \<noteq> []" "NL \<notin> set ''help''"
    "inp_err (w0\<lparr>inp := ''help''\<rparr>) = None"
    by (simp_all add: w0_def NL_def)
  from final_line_without_newline [OF h, of os0] show ?thesis
    by (simp add: split_line_help execute_def arg_def execute_loop_0 help_cmd_def help_loop_out
        printf_def EXIT_SUCCESS_def w0_def)
qed

section \<open>The tokenizer against the specification\<close>

lemma strtok_delim:
  "strtok s TOKEN_DELIM =
     (case dropWhile is_delim s of
        [] \<Rightarrow> None
      | c # cs \<Rightarrow> Some (up_to_first_delim (c # cs), drop 1 (dropWhile (\<lambda>c. \<not> is_delim c) (c # cs))))"
  unfolding strtok_def up_to_first_delim_def is_delim_def [abs_def] by (rule refl)

lemma split_loop_pure:
  "\<forall>n. malloc_os os w n \<Longrightarrow> 0 \<le> p \<Longrightarrow> p < b \<Longrightarrow> b \<le> p + TOKEN_BUFSIZE \<Longrightarrow>
     p + int (length (strtok_all st)) + TOKEN_BUFSIZE \<le> INT_MAX \<Longrightarrow>
     split_loop os w b p toks st = Returns (toks @ strtok_all st) w"
proof (induction os w b p toks st rule: split_loop.induct)
  case (1 os w bufsize position tokens)
  show ?case by simp
next
  case (2 os w bufsize position tokens token rest)
  let ?st = "strtok rest TOKEN_DELIM"
  from "2.prems" have n: "position + 1 + int (length (strtok_all ?st)) + TOKEN_BUFSIZE \<le> INT_MAX"
    by simp
  have tb: "0 < TOKEN_BUFSIZE" by (simp add: TOKEN_BUFSIZE_def)
  from n tb have a: "\<not> position + 1 > INT_MAX" by linarith
  show ?case
  proof (cases "position + 1 \<ge> bufsize")
    case True
    with n "2.prems" have b: "\<not> bufsize + TOKEN_BUFSIZE > INT_MAX" by linarith
    from "2.prems" have m: "\<not> \<not> malloc_os os w (nat (bufsize + TOKEN_BUFSIZE) * sizeof_ptr)"
      by simp
    have "split_loop os w (bufsize + TOKEN_BUFSIZE) (position + 1) (tokens @ [token]) ?st =
        Returns ((tokens @ [token]) @ strtok_all ?st) w"
      using a True b m "2.prems" tb n by (intro "2.IH"(1)) simp_all
    with a True b m show ?thesis by simp
  next
    case False
    have "split_loop os w bufsize (position + 1) (tokens @ [token]) ?st =
        Returns ((tokens @ [token]) @ strtok_all ?st) w"
      using a False "2.prems" tb n by (intro "2.IH"(2)) simp_all
    with a False show ?thesis by simp
  qed
qed

lemma split_line_pure:
  "\<forall>n. malloc_os os w n \<Longrightarrow>
     int (length (strtok_all (strtok (c_str line) TOKEN_DELIM))) + TOKEN_BUFSIZE \<le> INT_MAX \<Longrightarrow>
     split_line os line w = Returns (strtok_all (strtok (c_str line) TOKEN_DELIM)) w"
proof -
  assume m: "\<forall>n. malloc_os os w n"
    and n: "int (length (strtok_all (strtok (c_str line) TOKEN_DELIM))) + TOKEN_BUFSIZE \<le> INT_MAX"
  have "split_loop os w TOKEN_BUFSIZE 0 [] (strtok (c_str line) TOKEN_DELIM) =
      Returns ([] @ strtok_all (strtok (c_str line) TOKEN_DELIM)) w"
    using m n by (intro split_loop_pure) (simp_all add: TOKEN_BUFSIZE_def)
  with m show ?thesis by (simp add: split_line_def)
qed


lemma fields_not_Nil: "delim_fields s \<noteq> []"
  by (cases s) (simp_all split: list.splits)

lemma fields_split:
  "delim_fields s = up_to_first_delim s #
     (case dropWhile (\<lambda>c. \<not> is_delim c) s of [] \<Rightarrow> [] | d # r \<Rightarrow> delim_fields r)"
proof (induction s)
  case Nil
  show ?case by (simp add: up_to_first_delim_def)
next
  case (Cons c cs)
  show ?case
  proof (cases "is_delim c")
    case True
    then show ?thesis by (simp add: up_to_first_delim_def)
  next
    case False
    have "delim_fields (c # cs) = (case delim_fields cs of [] \<Rightarrow> [[c]] | f # fs \<Rightarrow> (c # f) # fs)"
      using False by simp
    also have "\<dots> = (c # up_to_first_delim cs) #
        (case dropWhile (\<lambda>c. \<not> is_delim c) cs of [] \<Rightarrow> [] | d # r \<Rightarrow> delim_fields r)"
      by (subst Cons.IH) simp
    finally show ?thesis
      using False by (simp add: up_to_first_delim_def)
  qed
qed


lemma spec_tokenize_Nil: "spec_tokenize [] = []"
  by (simp add: spec_tokenize_def)

lemma spec_tokenize_delim: "is_delim c \<Longrightarrow> spec_tokenize (c # cs) = spec_tokenize cs"
  by (simp add: spec_tokenize_def)

lemma spec_tokenize_token:
  "\<not> is_delim c \<Longrightarrow>
     spec_tokenize (c # cs) =
       up_to_first_delim (c # cs) # spec_tokenize (drop 1 (dropWhile (\<lambda>c. \<not> is_delim c) (c # cs)))"
proof -
  assume nd: "\<not> is_delim c"
  then have ne: "up_to_first_delim (c # cs) \<noteq> []"
    by (simp add: up_to_first_delim_def)
  have "spec_tokenize (c # cs) =
      filter (\<lambda>t. t \<noteq> []) (up_to_first_delim (c # cs) #
        (case dropWhile (\<lambda>c. \<not> is_delim c) (c # cs) of [] \<Rightarrow> [] | d # r \<Rightarrow> delim_fields r))"
    unfolding spec_tokenize_def by (subst fields_split) (rule refl)
  also have "\<dots> = up_to_first_delim (c # cs) #
      filter (\<lambda>t. t \<noteq> [])
        (case dropWhile (\<lambda>c. \<not> is_delim c) (c # cs) of [] \<Rightarrow> [] | d # r \<Rightarrow> delim_fields r)"
    using ne by simp
  also have "filter (\<lambda>t. t \<noteq> [])
        (case dropWhile (\<lambda>c. \<not> is_delim c) (c # cs) of [] \<Rightarrow> [] | d # r \<Rightarrow> delim_fields r) =
      spec_tokenize (drop 1 (dropWhile (\<lambda>c. \<not> is_delim c) (c # cs)))"
    by (cases "dropWhile (\<lambda>c. \<not> is_delim c) (c # cs)")
       (simp_all add: spec_tokenize_def del: dropWhile.simps dropWhile_eq_Nil_conv)
  finally show ?thesis .
qed


lemma spec_tokenize_dropWhile: "spec_tokenize (dropWhile is_delim s) = spec_tokenize s"
  by (induction s) (simp_all add: spec_tokenize_delim)

lemma strtok_all_spec: "strtok_all (strtok s TOKEN_DELIM) = spec_tokenize s"
proof (induction s rule: length_induct)
  case (1 s)
  show ?case
  proof (cases "dropWhile is_delim s")
    case Nil
    have "spec_tokenize s = []"
      using spec_tokenize_dropWhile [of s] unfolding Nil by (simp add: spec_tokenize_Nil)
    moreover have "strtok s TOKEN_DELIM = None"
      unfolding strtok_delim Nil by simp
    ultimately show ?thesis by simp
  next
    case (Cons c cs)
    let ?r = "drop 1 (dropWhile (\<lambda>c. \<not> is_delim c) (c # cs))"
    from Cons have nd: "\<not> is_delim c"
      using hd_dropWhile [of is_delim s] by simp
    have "length ?r < length (c # cs)"
      using length_dropWhile_le [of "\<lambda>c. \<not> is_delim c" "c # cs"]
      by (cases "dropWhile (\<lambda>c. \<not> is_delim c) (c # cs)") auto
    also have "\<dots> \<le> length s"
      using length_dropWhile_le [of is_delim s] Cons by simp
    finally have "strtok_all (strtok ?r TOKEN_DELIM) = spec_tokenize ?r"
      using "1.IH" by blast
    moreover have "spec_tokenize s = spec_tokenize (c # cs)"
      using spec_tokenize_dropWhile [of s] Cons by simp
    moreover have "strtok s TOKEN_DELIM = Some (up_to_first_delim (c # cs), ?r)"
      unfolding strtok_delim Cons by simp
    ultimately show ?thesis
      using nd by (simp add: spec_tokenize_token)
  qed
qed


lemma fields_no_delim: "f \<in> set (delim_fields s) \<Longrightarrow> c \<in> set f \<Longrightarrow> \<not> is_delim c"
proof (induction s arbitrary: f)
  case Nil
  then show ?case by simp
next
  case (Cons a s)
  show ?case
  proof (cases "is_delim a")
    case True
    with Cons.prems have "f = [] \<or> f \<in> set (delim_fields s)" by auto
    with Cons.prems(2) Cons.IH show ?thesis by auto
  next
    case False
    obtain g gs where g: "delim_fields s = g # gs"
      using fields_not_Nil [of s] by (cases "delim_fields s") auto
    with False Cons.prems(1) have "f = a # g \<or> f \<in> set gs" by auto
    then show ?thesis
    proof
      assume "f = a # g"
      with Cons.prems(2) have "c = a \<or> c \<in> set g" by auto
      with False Cons.IH [of g] g show ?thesis by auto
    next
      assume "f \<in> set gs"
      with g Cons.IH [of f] Cons.prems(2) show ?thesis by auto
    qed
  qed
qed

lemma concat_fields: "concat (delim_fields s) = filter (\<lambda>c. \<not> is_delim c) s"
proof (induction s)
  case Nil
  show ?case by simp
next
  case (Cons a s)
  obtain g gs where g: "delim_fields s = g # gs"
    using fields_not_Nil [of s] by (cases "delim_fields s") auto
  with Cons.IH show ?case by simp
qed

lemma concat_nonempty: "concat (filter (\<lambda>t. t \<noteq> []) xs) = concat xs"
  by (induction xs) simp_all

lemma spec_tokenize_token_ok:
  "t \<in> set (spec_tokenize s) \<Longrightarrow> t \<noteq> [] \<and> (\<forall>c\<in>set t. \<not> is_delim c)"
  using fields_no_delim [of t s] by (auto simp: spec_tokenize_def)

lemma concat_spec_tokenize: "concat (spec_tokenize s) = filter (\<lambda>c. \<not> is_delim c) s"
  by (simp add: spec_tokenize_def concat_nonempty concat_fields)

lemma spec_tokenize_all_delim: "\<forall>c\<in>set s. is_delim c \<Longrightarrow> spec_tokenize s = []"
  by (induction s) (simp_all add: spec_tokenize_Nil spec_tokenize_delim)

lemma is_delim_chars:
  "is_delim c \<longleftrightarrow> c \<in> {CHR '' '', CHR 0x09, CHR 0x0D, CHR 0x0A, CHR 0x07}"
  by (simp add: is_delim_def TOKEN_DELIM_def)

lemma c_str_id: "CHR 0x00 \<notin> set line \<Longrightarrow> c_str line = line"
  unfolding c_str_def takeWhile_eq_all_conv by blast

lemma c_str_no_nul: "c \<in> set (c_str line) \<Longrightarrow> c \<noteq> CHR 0x00"
  unfolding c_str_def by (drule set_takeWhileD) simp

text \<open>
  C8, as the code has it. Given memory and a number of tokens that, with 64 added, stays
  within \<^verbatim>\<open>INT_MAX\<close>, \<open>split_line\<close> returns the non-empty fields between delimiters of
  the line read as a C string, that is of the line up to its first zero byte; for a line
  without a zero byte that is the whole line. Every token is non-empty and holds no
  delimiter; the tokens, end to end, are that string without its delimiters, so no other
  character is dropped, added or given a meaning; a line of delimiters only, the empty
  line among them, gives the empty vector; and the delimiters are exactly space, tab,
  carriage return, newline and bell.
\<close>

theorem split_line_tokens:
  assumes "\<forall>n. malloc_os os w n"
    and "int (length (spec_tokenize (c_str line))) + TOKEN_BUFSIZE \<le> INT_MAX"
  shows "split_line os line w = Returns (spec_tokenize (c_str line)) w
       \<and> (CHR 0x00 \<notin> set line \<longrightarrow> split_line os line w = Returns (spec_tokenize line) w)
       \<and> (\<forall>t\<in>set (spec_tokenize (c_str line)). t \<noteq> [] \<and> (\<forall>c\<in>set t. \<not> is_delim c))
       \<and> concat (spec_tokenize (c_str line)) = filter (\<lambda>c. \<not> is_delim c) (c_str line)
       \<and> ((\<forall>c\<in>set line. is_delim c) \<longrightarrow> split_line os line w = Returns [] w)
       \<and> (\<forall>c. is_delim c \<longleftrightarrow> c \<in> {CHR '' '', CHR 0x09, CHR 0x0D, CHR 0x0A, CHR 0x07})"
proof (intro conjI impI ballI allI)
  show 1: "split_line os line w = Returns (spec_tokenize (c_str line)) w"
    using assms by (simp add: split_line_pure strtok_all_spec)
  show "split_line os line w = Returns (spec_tokenize line) w" if "CHR 0x00 \<notin> set line"
    using 1 that by (simp add: c_str_id)
  show "t \<noteq> []" if "t \<in> set (spec_tokenize (c_str line))" for t
    using that by (simp add: spec_tokenize_token_ok)
  show "\<not> is_delim c" if "t \<in> set (spec_tokenize (c_str line))" and "c \<in> set t" for t c
    using that spec_tokenize_token_ok [of t "c_str line"] by blast
  show "concat (spec_tokenize (c_str line)) = filter (\<lambda>c. \<not> is_delim c) (c_str line)"
    by (rule concat_spec_tokenize)
  show "split_line os line w = Returns [] w" if d: "\<forall>c\<in>set line. is_delim c"
  proof -
    have "\<not> is_delim (CHR 0x00)" by (simp add: is_delim_chars)
    with d have "CHR 0x00 \<notin> set line" by blast
    with 1 d show ?thesis by (simp add: c_str_id spec_tokenize_all_delim)
  qed
  show "is_delim c \<longleftrightarrow> c \<in> {CHR '' '', CHR 0x09, CHR 0x0D, CHR 0x0A, CHR 0x07}" for c
    by (rule is_delim_chars)
qed

theorem split_line_tokens_witness:
  "split_line os0 ('' ls  -l '' @ [CHR 0x22] @ ''a'' @ [CHR 0x09] @ ''b'' @ [CHR 0x22, CHR 0x0D, NL]) w0 =
     Returns [''ls'', ''-l'', [CHR 0x22, CHR ''a''], [CHR ''b'', CHR 0x22]] w0
   \<and> split_line os0 ([CHR '' '', CHR 0x09, CHR 0x07, CHR 0x0D, NL]) w0 = Returns [] w0
   \<and> split_line os0 [] w0 = Returns [] w0"
proof -
  have m: "\<forall>n. malloc_os os0 w0 n"
    by (simp add: os0_def)
  have b1: "int (length (spec_tokenize (c_str
      ('' ls  -l '' @ [CHR 0x22] @ ''a'' @ [CHR 0x09] @ ''b'' @ [CHR 0x22, CHR 0x0D, NL]))))
      + TOKEN_BUFSIZE \<le> INT_MAX"
    by (simp add: NL_def c_str_def spec_tokenize_def is_delim_chars TOKEN_BUFSIZE_def INT_MAX_def)
  have b2: "int (length (spec_tokenize (c_str [CHR '' '', CHR 0x09, CHR 0x07, CHR 0x0D, NL])))
      + TOKEN_BUFSIZE \<le> INT_MAX"
    by (simp add: NL_def c_str_def spec_tokenize_def is_delim_chars TOKEN_BUFSIZE_def INT_MAX_def)
  have b3: "int (length (spec_tokenize (c_str []))) + TOKEN_BUFSIZE \<le> INT_MAX"
    by (simp add: c_str_def spec_tokenize_def TOKEN_BUFSIZE_def INT_MAX_def)
  from split_line_tokens [OF m b1, THEN conjunct1]
  have 1: "split_line os0 ('' ls  -l '' @ [CHR 0x22] @ ''a'' @ [CHR 0x09] @ ''b'' @ [CHR 0x22, CHR 0x0D, NL]) w0 =
     Returns [''ls'', ''-l'', [CHR 0x22, CHR ''a''], [CHR ''b'', CHR 0x22]] w0"
    by (simp add: NL_def c_str_def spec_tokenize_def is_delim_chars)
  from split_line_tokens [OF m b2, THEN conjunct1]
  have 2: "split_line os0 ([CHR '' '', CHR 0x09, CHR 0x07, CHR 0x0D, NL]) w0 = Returns [] w0"
    by (simp add: NL_def c_str_def spec_tokenize_def is_delim_chars)
  from split_line_tokens [OF m b3, THEN conjunct1]
  have 3: "split_line os0 [] w0 = Returns [] w0"
    by (simp add: c_str_def spec_tokenize_def)
  from 1 2 3 show ?thesis by simp
qed

text \<open>
  C8, as the claim words it for every line, fails on a line that holds a zero byte:
  \<^verbatim>\<open>strtok\<close> reads a C string, so the line \<^verbatim>\<open>ls\0-l x\<close> gives the one token
  \<^verbatim>\<open>ls\<close>, where splitting the whole line at the five delimiters gives two tokens.
\<close>

theorem zero_byte_line_counterexample:
  "split_line os0 (''ls'' @ [CHR 0x00] @ ''-l x'' @ [NL]) w0 = Returns [''ls''] w0
   \<and> spec_tokenize (''ls'' @ [CHR 0x00] @ ''-l x'' @ [NL]) = [''ls'' @ [CHR 0x00] @ ''-l'', ''x'']
   \<and> split_line os0 (''ls'' @ [CHR 0x00] @ ''-l x'' @ [NL]) w0 \<noteq>
       Returns (spec_tokenize (''ls'' @ [CHR 0x00] @ ''-l x'' @ [NL])) w0"
proof -
  have 1: "split_line os0 (''ls'' @ [CHR 0x00] @ ''-l x'' @ [NL]) w0 = Returns [''ls''] w0"
    by (simp add: split_line_def os0_def c_str_def strtok_def TOKEN_DELIM_def TOKEN_BUFSIZE_def
        INT_MAX_def NL_def)
  have 2: "spec_tokenize (''ls'' @ [CHR 0x00] @ ''-l x'' @ [NL]) = [''ls'' @ [CHR 0x00] @ ''-l'', ''x'']"
    by (simp add: spec_tokenize_def is_delim_chars NL_def)
  from 1 2 show ?thesis by simp
qed

section \<open>The first token and the round trip\<close>

lemma spec_tokenize_first:
  assumes "\<exists>c\<in>set s. \<not> is_delim c"
  shows "\<exists>ts. spec_tokenize s = up_to_first_delim (dropWhile is_delim s) # ts"
proof -
  from assms have "dropWhile is_delim s \<noteq> []" by simp
  then obtain c cs where d: "dropWhile is_delim s = c # cs"
    by (cases "dropWhile is_delim s") auto
  then have nd: "\<not> is_delim c"
    using hd_dropWhile [of is_delim s] by simp
  have e: "spec_tokenize s = spec_tokenize (c # cs)"
    using spec_tokenize_dropWhile [of s] unfolding d by (rule sym)
  have "spec_tokenize s = up_to_first_delim (dropWhile is_delim s) #
      spec_tokenize (drop 1 (dropWhile (\<lambda>c. \<not> is_delim c) (c # cs)))"
    unfolding d e using nd by (rule spec_tokenize_token)
  then show ?thesis by (rule exI)
qed

lemma fields_token_append:
  "\<forall>c\<in>set t. \<not> is_delim c \<Longrightarrow>
     delim_fields (t @ s) = (t @ hd (delim_fields s)) # tl (delim_fields s)"
proof (induction t)
  case Nil
  show ?case using fields_not_Nil [of s] by simp
next
  case (Cons a t)
  then have "delim_fields (t @ s) = (t @ hd (delim_fields s)) # tl (delim_fields s)"
    and "\<not> is_delim a" by simp_all
  then show ?case by simp
qed

lemma spec_tokenize_join:
  "\<forall>t\<in>set ts. t \<noteq> [] \<and> (\<forall>c\<in>set t. \<not> is_delim c) \<Longrightarrow> spec_tokenize (join ts) = ts"
proof (induction ts rule: join.induct)
  case 1
  show ?case by (simp add: spec_tokenize_Nil)
next
  case (2 t)
  then have "delim_fields (t @ []) = (t @ hd (delim_fields [])) # tl (delim_fields [])"
    by (intro fields_token_append) simp
  with 2 show ?case by (simp add: spec_tokenize_def)
next
  case (3 t t' ts)
  have sp: "is_delim (CHR '' '')" by (simp add: is_delim_chars)
  from 3 have "delim_fields (t @ CHR '' '' # join (t' # ts)) =
      (t @ hd (delim_fields (CHR '' '' # join (t' # ts)))) # tl (delim_fields (CHR '' '' # join (t' # ts)))"
    by (intro fields_token_append) simp
  with sp have "delim_fields (join (t # t' # ts)) = t # delim_fields (join (t' # ts))"
    by simp
  moreover from 3 have "spec_tokenize (join (t' # ts)) = t' # ts" and "t \<noteq> []"
    by simp_all
  ultimately show ?case by (simp add: spec_tokenize_def)
qed

lemma join_chars: "c \<in> set (join ts) \<Longrightarrow> c = CHR '' '' \<or> (\<exists>t\<in>set ts. c \<in> set t)"
  by (induction ts rule: join.induct) auto

lemma spec_tokenize_chars: "t \<in> set (spec_tokenize s) \<Longrightarrow> c \<in> set t \<Longrightarrow> c \<in> set s"
proof -
  assume "t \<in> set (spec_tokenize s)" and "c \<in> set t"
  then have "c \<in> set (concat (spec_tokenize s))" by auto
  then show ?thesis by (simp add: concat_spec_tokenize)
qed

lemma c_str_join_tokens: "c_str (join (spec_tokenize (c_str line))) = join (spec_tokenize (c_str line))"
proof (rule c_str_id, rule notI)
  assume "CHR 0x00 \<in> set (join (spec_tokenize (c_str line)))"
  then obtain t where "t \<in> set (spec_tokenize (c_str line))" and "CHR 0x00 \<in> set t"
    using join_chars [of "CHR 0x00" "spec_tokenize (c_str line)"] by auto
  then have "CHR 0x00 \<in> set (c_str line)" by (rule spec_tokenize_chars)
  then show False using c_str_no_nul by blast
qed

lemma spec_tokenize_Cons:
  assumes "\<not> is_delim c"
  shows "spec_tokenize (c # cs) =
     (if cs \<noteq> [] \<and> \<not> is_delim (hd cs)
      then (c # hd (spec_tokenize cs)) # tl (spec_tokenize cs)
      else [c] # spec_tokenize cs)"
proof -
  obtain f fs where f: "delim_fields cs = f # fs"
    using fields_not_Nil [of cs] by (cases "delim_fields cs") auto
  have "f = up_to_first_delim cs"
    using fields_split [of cs] f by simp
  then have e: "f = [] \<longleftrightarrow> \<not> (cs \<noteq> [] \<and> \<not> is_delim (hd cs))"
    by (cases cs) (simp_all add: up_to_first_delim_def)
  from assms f have "spec_tokenize (c # cs) = (c # f) # filter (\<lambda>t. t \<noteq> []) fs"
    by (simp add: spec_tokenize_def)
  moreover from f have "spec_tokenize cs = (if f = [] then [] else [f]) @ filter (\<lambda>t. t \<noteq> []) fs"
    by (simp add: spec_tokenize_def)
  ultimately show ?thesis using e by auto
qed

lemma join_Cons_char: "join ((c # f) # ts) = c # join (f # ts)"
  by (cases ts) simp_all

lemma join_single_char: "join ([c] # ts) = c # (if ts = [] then [] else CHR '' '' # join ts)"
  by (cases ts) simp_all

lemma squeeze_join:
  "squeeze True s = (if spec_tokenize s = [] then [] else CHR '' '' # join (spec_tokenize s))
   \<and> squeeze False s =
       (if s \<noteq> [] \<and> \<not> is_delim (hd s) then join (spec_tokenize s)
        else if spec_tokenize s = [] then [] else CHR '' '' # join (spec_tokenize s))"
proof (induction s)
  case Nil
  show ?case by (simp add: spec_tokenize_Nil)
next
  case (Cons c cs)
  show ?case
  proof (cases "is_delim c")
    case True
    with Cons show ?thesis by (simp add: spec_tokenize_delim)
  next
    case False
    have f: "squeeze False (c # cs) = join (spec_tokenize (c # cs))"
    proof (cases "cs \<noteq> [] \<and> \<not> is_delim (hd cs)")
      case True
      then have "spec_tokenize cs \<noteq> []"
        using spec_tokenize_first [of cs] by (cases cs) auto
      then obtain t ts where t: "spec_tokenize cs = t # ts"
        by (cases "spec_tokenize cs") auto
      with True False Cons show ?thesis
        by (simp add: spec_tokenize_Cons join_Cons_char)
    next
      case no: False
      with False Cons have "squeeze False (c # cs) =
          c # (if spec_tokenize cs = [] then [] else CHR '' '' # join (spec_tokenize cs))"
        by auto
      also have "\<dots> = join ([c] # spec_tokenize cs)"
        by (simp only: join_single_char)
      also have "[c] # spec_tokenize cs = spec_tokenize (c # cs)"
        using False no by (auto simp: spec_tokenize_Cons)
      finally show ?thesis .
    qed
    have ne: "spec_tokenize (c # cs) \<noteq> []"
      using False by (simp add: spec_tokenize_Cons)
    from False have "squeeze True (c # cs) = CHR '' '' # squeeze False (c # cs)"
      by simp
    with f ne False show ?thesis by simp
  qed
qed

lemma join_normalize: "join (spec_tokenize s) = normalize_ws s"
proof (cases "dropWhile is_delim s")
  case Nil
  then have "spec_tokenize s = []"
    using spec_tokenize_dropWhile [of s] by (simp add: spec_tokenize_Nil del: dropWhile_eq_Nil_conv)
  with Nil show ?thesis by (simp add: normalize_ws_def del: dropWhile_eq_Nil_conv)
next
  case (Cons c cs)
  then have "\<not> is_delim c"
    using hd_dropWhile [of is_delim s] by simp
  then have "squeeze False (c # cs) = join (spec_tokenize (c # cs))"
    using squeeze_join [of "c # cs"] by simp
  with Cons spec_tokenize_dropWhile [of s] show ?thesis
    by (simp add: normalize_ws_def)
qed


lemma split_line_ex1:
  "split_line os0 ([CHR 0x09] @ ''cd  /tmp '' @ [NL]) w0 = Returns [''cd'', ''/tmp''] w0"
  by (simp add: split_line_def os0_def c_str_def strtok_def TOKEN_DELIM_def TOKEN_BUFSIZE_def
      INT_MAX_def NL_def)

lemma split_line_ex2:
  "split_line os0 ''cd /tmp'' w0 = Returns [''cd'', ''/tmp''] w0"
  by (simp add: split_line_def os0_def c_str_def strtok_def TOKEN_DELIM_def TOKEN_BUFSIZE_def
      INT_MAX_def NL_def)

text \<open>
  C9, as the code has it. Take a line without a zero byte, memory, and a number of tokens
  that, with 64 added, stays within \<^verbatim>\<open>INT_MAX\<close>. When the line holds a character other
  than a delimiter, the first token is the substring that starts at the first such
  character, after any delimiters at the front of the line, and runs up to the next
  delimiter; when the line starts with such a character this is the substring of the
  line up to its first delimiter run. The tokens joined by single spaces are the
  whitespace-normalized line; that line has the same tokens as the original under the
  specification's tokenizer and the same characters other than delimiters, in the same
  order, and \<open>split_line\<close> returns the same tokens for it.
\<close>

theorem first_token_round_trip:
  assumes "\<forall>n. malloc_os os w n"
    and "CHR 0x00 \<notin> set line"
    and "int (length (spec_tokenize line)) + TOKEN_BUFSIZE \<le> INT_MAX"
  shows "((\<exists>c\<in>set line. \<not> is_delim c) \<longrightarrow>
            (\<exists>ts. split_line os line w =
                    Returns (up_to_first_delim (dropWhile is_delim line) # ts) w))
       \<and> (line \<noteq> [] \<and> \<not> is_delim (hd line) \<longrightarrow>
            (\<exists>ts. split_line os line w = Returns (up_to_first_delim line # ts) w))
       \<and> (\<exists>ts. split_line os line w = Returns ts w
              \<and> join ts = normalize_ws line
              \<and> spec_tokenize (join ts) = spec_tokenize line
              \<and> filter (\<lambda>c. \<not> is_delim c) (join ts) = filter (\<lambda>c. \<not> is_delim c) line
              \<and> split_line os (join ts) w = Returns ts w)"
proof (intro conjI impI)
  have c: "c_str line = line"
    using assms(2) by (rule c_str_id)
  have 1: "split_line os line w = Returns (spec_tokenize line) w"
    using assms c by (simp add: split_line_pure strtok_all_spec)
  show "\<exists>ts. split_line os line w = Returns (up_to_first_delim (dropWhile is_delim line) # ts) w"
    if "\<exists>c\<in>set line. \<not> is_delim c"
    using that spec_tokenize_first [of line] by (auto simp: 1)
  show "\<exists>ts. split_line os line w = Returns (up_to_first_delim line # ts) w"
    if a: "line \<noteq> [] \<and> \<not> is_delim (hd line)"
  proof -
    from a have "dropWhile is_delim line = line"
      by (cases line) simp_all
    moreover from a have "\<exists>c\<in>set line. \<not> is_delim c"
      by (cases line) auto
    ultimately show ?thesis
      using spec_tokenize_first [of line] by (auto simp: 1)
  qed
  let ?ts = "spec_tokenize line"
  have j: "spec_tokenize (join ?ts) = ?ts"
    by (rule spec_tokenize_join) (simp add: spec_tokenize_token_ok)
  have cj: "c_str (join ?ts) = join ?ts"
    using c_str_join_tokens [of line] c by simp
  have "concat (spec_tokenize (join ?ts)) = filter (\<lambda>c. \<not> is_delim c) (join ?ts)"
    by (rule concat_spec_tokenize)
  with j have f: "filter (\<lambda>c. \<not> is_delim c) (join ?ts) = filter (\<lambda>c. \<not> is_delim c) line"
    by (simp add: concat_spec_tokenize)
  have "split_line os (join ?ts) w = Returns (strtok_all (strtok (c_str (join ?ts)) TOKEN_DELIM)) w"
    using assms(1) by (rule split_line_pure) (simp add: strtok_all_spec cj j assms(3))
  then have 2: "split_line os (join ?ts) w = Returns ?ts w"
    by (simp add: strtok_all_spec cj j)
  from 1 j f 2 join_normalize [of line]
  show "\<exists>ts. split_line os line w = Returns ts w
              \<and> join ts = normalize_ws line
              \<and> spec_tokenize (join ts) = spec_tokenize line
              \<and> filter (\<lambda>c. \<not> is_delim c) (join ts) = filter (\<lambda>c. \<not> is_delim c) line
              \<and> split_line os (join ts) w = Returns ts w"
    by blast
qed

theorem first_token_round_trip_witness:
  "split_line os0 ([CHR 0x09] @ ''cd  /tmp '' @ [NL]) w0 = Returns [''cd'', ''/tmp''] w0
   \<and> up_to_first_delim (dropWhile is_delim ([CHR 0x09] @ ''cd  /tmp '' @ [NL])) = ''cd''
   \<and> join [''cd'', ''/tmp''] = ''cd /tmp''
   \<and> normalize_ws ([CHR 0x09] @ ''cd  /tmp '' @ [NL]) = ''cd /tmp''
   \<and> split_line os0 ''cd /tmp'' w0 = Returns [''cd'', ''/tmp''] w0"
proof -
  let ?l = "[CHR 0x09] @ ''cd  /tmp '' @ [NL]"
  have m: "\<forall>n. malloc_os os0 w0 n"
    by (simp add: os0_def)
  have z: "CHR 0x00 \<notin> set ?l"
    by (simp add: NL_def)
  have b: "int (length (spec_tokenize ?l)) + TOKEN_BUFSIZE \<le> INT_MAX"
    by (simp add: NL_def spec_tokenize_def is_delim_chars TOKEN_BUFSIZE_def INT_MAX_def)
  have h: "\<exists>c\<in>set ?l. \<not> is_delim c"
    by (simp add: NL_def is_delim_chars)
  note t = first_token_round_trip [OF m z b]
  from t h have "\<exists>ts. split_line os0 ?l w0 =
      Returns (up_to_first_delim (dropWhile is_delim ?l) # ts) w0"
    by blast
  then have 1: "up_to_first_delim (dropWhile is_delim ?l) = ''cd''"
    by (simp only: split_line_ex1) simp
  from t have "\<exists>ts. split_line os0 ?l w0 = Returns ts w0 \<and> join ts = normalize_ws ?l"
    by blast
  then have 2: "normalize_ws ?l = ''cd /tmp''"
    by (simp only: split_line_ex1) auto
  from 1 2 show ?thesis
    by (simp only: split_line_ex1 split_line_ex2) simp
qed

text \<open>
  C9, as the claim words it, fails on a line that starts with a delimiter: the substring
  of \<^verbatim>\<open>" ls"\<close> up to its first delimiter run is empty, and the first token is
  \<^verbatim>\<open>ls\<close>.
\<close>

theorem first_token_counterexample:
  "split_line os0 '' ls'' w0 = Returns [''ls''] w0 \<and> up_to_first_delim '' ls'' \<noteq> ''ls''"
  by (simp add: split_line_def os0_def c_str_def strtok_def TOKEN_DELIM_def TOKEN_BUFSIZE_def
      INT_MAX_def up_to_first_delim_def is_delim_chars)

end
